theory Spec2Isabelle
  imports Complex_Main "HOL-Library.Word" "HOL-Library.Log_Nat"
begin

section \<open>Machine integers\<close>

text \<open>
  The counters are C++ \<^verbatim>\<open>int\<close> values: 32 bits, read as two's complement by
  \<open>sint\<close>. ISO C++ leaves signed overflow undefined; the model takes the wrap-around
  modulo \<open>2 ^ 32\<close> that the usual targets compute for \<^verbatim>\<open>++counter\<close> and for the
  additions of \<^verbatim>\<open>std::accumulate\<close>. Below \<open>INT_MAX\<close> nothing depends on that choice.
\<close>

type_synonym cint = "32 word"

definition INT_MAX :: int where
  "INT_MAX = 2147483647"

definition INT_MIN :: int where
  "INT_MIN = - 2147483648"

text \<open>
  \<^verbatim>\<open>static_cast<int>(counters_.size())\<close>: the size, an unsigned 64-bit number, is
  narrowed to \<^verbatim>\<open>int\<close>; the low 32 bits are kept.
\<close>

definition size_as_int :: "'a list \<Rightarrow> int" where
  "size_as_int xs = sint (word_of_nat (length xs) :: cint)"

section \<open>CounterManager\<close>

text \<open>
  The class holds a \<^verbatim>\<open>std::vector<int>\<close> behind a mutex. Every member function
  locks the mutex for its whole body, so each one is modelled as one atomic step on the
  vector.
\<close>

record CounterManager =
  counters :: "cint list"

definition addCounter :: "cint \<Rightarrow> CounterManager \<Rightarrow> CounterManager" where
  "addCounter v cm = cm\<lparr>counters := counters cm @ [v]\<rparr>"

text \<open>\<^verbatim>\<open>counters_.erase(counters_.begin() + index)\<close> for an index inside the vector.\<close>

fun erase :: "nat \<Rightarrow> 'a list \<Rightarrow> 'a list" where
  "erase n [] = []"
| "erase 0 (x # xs) = xs"
| "erase (Suc n) (x # xs) = x # erase n xs"

definition deleteCounter :: "cint \<Rightarrow> CounterManager \<Rightarrow> CounterManager" where
  "deleteCounter index cm =
     (if 0 \<le> sint index \<and> sint index < size_as_int (counters cm)
      then cm\<lparr>counters := erase (nat (sint index)) (counters cm)\<rparr>
      else cm)"

definition getCounters :: "CounterManager \<Rightarrow> cint list" where
  "getCounters cm = counters cm"

text \<open>The range-for loop of \<^verbatim>\<open>incrementAll\<close>: \<^verbatim>\<open>++counter\<close> on each element in turn.\<close>

primrec increment_each :: "cint list \<Rightarrow> cint list" where
  "increment_each [] = []"
| "increment_each (c # cs) = (c + 1) # increment_each cs"

definition incrementAll :: "CounterManager \<Rightarrow> CounterManager" where
  "incrementAll cm = cm\<lparr>counters := increment_each (counters cm)\<rparr>"

definition setCounters :: "cint list \<Rightarrow> CounterManager \<Rightarrow> CounterManager" where
  "setCounters new_counters cm = cm\<lparr>counters := new_counters\<rparr>"

section \<open>Double arithmetic\<close>

text \<open>
  A \<^verbatim>\<open>double\<close> is modelled by the real number it stands for, and every operation on
  doubles by the exact operation followed by rounding to the nearest double, ties to the
  even significand, as IEEE 754 prescribes for binary64. \<open>exponent x\<close> is the \<open>e\<close> with
  \<open>2 ^ e \<le> \<bar>x\<bar> < 2 ^ (e + 1)\<close>; a double has a significand of 53 bits, so \<open>x\<close> is
  rounded to a whole multiple of \<open>2 ^ (e - 52)\<close>. The range of the exponent is not
  limited here. In the states the program reaches the rounded values are whole numbers
  of at most 64 bits and quotients of such numbers, which lie far inside the range of
  binary64, so that neither overflow nor underflow occurs.
\<close>

definition pow2 :: "int \<Rightarrow> real" where
  "pow2 e = (if 0 \<le> e then 2 ^ nat e else 1 / 2 ^ nat (- e))"

definition exponent :: "real \<Rightarrow> int" where
  "exponent x =
     (if 1 \<le> \<bar>x\<bar> then bitlen \<lfloor>\<bar>x\<bar>\<rfloor> - 1 else - bitlen (\<lceil>1 / \<bar>x\<bar>\<rceil> - 1))"

definition round_half_even :: "real \<Rightarrow> int" where
  "round_half_even y =
     (let n = \<lfloor>y\<rfloor>; r = y - real_of_int n in
      if r < 1 / 2 then n else if 1 / 2 < r then n + 1 else if even n then n else n + 1)"

definition to_double :: "real \<Rightarrow> real" where
  "to_double x =
     (if x = 0 then 0
      else (let e = exponent x - 52 in real_of_int (round_half_even (x / pow2 e)) * pow2 e))"

text \<open>The operators \<^verbatim>\<open>/\<close> and \<^verbatim>\<open>-\<close> on two doubles.\<close>

definition double_div :: "real \<Rightarrow> real \<Rightarrow> real" where
  "double_div a b = to_double (a / b)"

definition double_sub :: "real \<Rightarrow> real \<Rightarrow> real" where
  "double_sub a b = to_double (a - b)"

section \<open>The frequency display\<close>

text \<open>
  The part of \<^verbatim>\<open>MainWindow\<close> that the timer slot \<^verbatim>\<open>updateFrequency\<close> works on.
  \<open>elapsedTimer\<close> is the \<^verbatim>\<open>QElapsedTimer\<close>: \<open>None\<close> while it is invalid, otherwise
  the clock reading at which it was last started. Time is counted as the program sees
  it, in the whole milliseconds that \<^verbatim>\<open>elapsed()\<close> reports: the reading \<open>now\<close> of a
  timer started at \<open>started\<close> stands for \<^verbatim>\<open>elapsed()\<close> returning \<open>now - started\<close>.
  \<open>previousSum\<close> is a \<^verbatim>\<open>double\<close>.
\<close>

record MainWindow =
  counterManager :: CounterManager
  elapsedTimer :: "int option"
  previousSum :: real

text \<open>\<^verbatim>\<open>std::accumulate(first, last, 0)\<close>: the accumulator has the type of the \<^verbatim>\<open>int\<close> 0.\<close>

primrec accumulate :: "cint list \<Rightarrow> cint \<Rightarrow> cint" where
  "accumulate [] init = init"
| "accumulate (x # xs) init = accumulate xs (init + x)"

definition currentSum :: "MainWindow \<Rightarrow> real" where
  "currentSum w = real_of_int (sint (accumulate (getCounters (counterManager w)) 0))"

text \<open>
  One call of the slot. It reads the clock at most twice: \<open>now\<close> is the reading that
  \<^verbatim>\<open>start()\<close> or \<^verbatim>\<open>elapsed()\<close> sees, \<open>later\<close> the reading that \<^verbatim>\<open>restart()\<close>
  sees at the end of an armed tick. \<^verbatim>\<open>elapsed()\<close> is a 64-bit count of milliseconds,
  converted to \<^verbatim>\<open>double\<close> for the division by \<^verbatim>\<open>1000.0\<close>. The result is the new state
  and the frequency handed to the label, \<open>None\<close> when the slot returns without setting
  the label.
\<close>

definition updateFrequency :: "int \<Rightarrow> int \<Rightarrow> MainWindow \<Rightarrow> MainWindow \<times> real option" where
  "updateFrequency now later w =
     (case elapsedTimer w of
        None \<Rightarrow> (w\<lparr>elapsedTimer := Some now, previousSum := currentSum w\<rparr>, None)
      | Some started \<Rightarrow>
          (let timeDiff = double_div (to_double (real_of_int (now - started))) 1000 in
           if timeDiff \<le> 0 then (w, None)
           else
             (let frequency = double_div (double_sub (currentSum w) (previousSum w)) timeDiff in
              (w\<lparr>previousSum := currentSum w, elapsedTimer := Some later\<rparr>, Some frequency))))"

section \<open>The database\<close>

text \<open>
  The SQL engine is outside the program. What the program relies on is modelled here: the
  table \<^verbatim>\<open>counters\<close> is a list of rows in insertion order; \<open>durable\<close> is what the file
  holds, \<open>working\<close> the rows as an open transaction sees them, \<open>isOpen\<close> the state of
  the connection. A table that does not exist yet reads as no rows. Every call of
  \<^verbatim>\<open>query.exec\<close> either succeeds or fails; a statement that fails changes nothing.
  Outside a transaction every statement is committed at once.
\<close>

record database =
  durable :: "int list"
  working :: "int list option"
  isOpen :: bool

datatype statement = BeginTransaction | DeleteFromCounters | InsertValue int | Commit

datatype error = DatabaseNotOpen | FailedToOpenDatabase

definition write_rows :: "(int list \<Rightarrow> int list) \<Rightarrow> database \<Rightarrow> database" where
  "write_rows f db =
     (case working db of
        Some rows \<Rightarrow> db\<lparr>working := Some (f rows)\<rparr>
      | None \<Rightarrow> db\<lparr>durable := f (durable db)\<rparr>)"

fun exec :: "bool \<Rightarrow> statement \<Rightarrow> database \<Rightarrow> database" where
  "exec False stmt db = db"
| "exec True BeginTransaction db =
     (case working db of None \<Rightarrow> db\<lparr>working := Some (durable db)\<rparr> | Some rows \<Rightarrow> db)"
| "exec True DeleteFromCounters db = write_rows (\<lambda>rows. []) db"
| "exec True (InsertValue v) db = write_rows (\<lambda>rows. rows @ [v]) db"
| "exec True Commit db =
     (case working db of Some rows \<Rightarrow> db\<lparr>durable := rows, working := None\<rparr> | None \<Rightarrow> db)"

text \<open>
  \<^verbatim>\<open>QSqlDatabase::database()\<close> hands out the default connection and opens it when it is
  not open; \<open>open_ok\<close> tells whether that attempt succeeds.
\<close>

definition database_connection :: "bool \<Rightarrow> database \<Rightarrow> database" where
  "database_connection open_ok db = (if isOpen db then db else db\<lparr>isOpen := open_ok\<rparr>)"

text \<open>
  The loop of \<^verbatim>\<open>onSaveClicked\<close>: one INSERT for each counter, the \<^verbatim>\<open>int\<close> bound as
  its value. \<open>ok k\<close> tells whether the k-th call of \<^verbatim>\<open>query.exec\<close> of this save
  succeeds; the program never looks at that result.
\<close>

fun insert_loop :: "(nat \<Rightarrow> bool) \<Rightarrow> nat \<Rightarrow> cint list \<Rightarrow> database \<Rightarrow> database" where
  "insert_loop ok k [] db = db"
| "insert_loop ok k (v # rest) db = insert_loop ok (Suc k) rest (exec (ok k) (InsertValue (sint v)) db)"

definition onSaveClicked :: "bool \<Rightarrow> (nat \<Rightarrow> bool) \<Rightarrow> MainWindow \<Rightarrow> database \<Rightarrow> error + database" where
  "onSaveClicked open_ok ok w db0 =
     (let db = database_connection open_ok db0 in
      if \<not> isOpen db then Inl DatabaseNotOpen
      else
        (let db1 = exec (ok 0) BeginTransaction db;
             db2 = exec (ok 1) DeleteFromCounters db1;
             cs = getCounters (counterManager w);
             db3 = insert_loop ok 2 cs db2;
             db4 = exec (ok (2 + length cs)) Commit db3
         in Inr db4))"

text \<open>
  \<^verbatim>\<open>query.value(0).toInt()\<close>: the stored 64-bit integer narrowed to \<^verbatim>\<open>int\<close>.
\<close>

definition toInt :: "int \<Rightarrow> cint" where
  "toInt v = word_of_int v"

text \<open>The loop of \<^verbatim>\<open>loadCountersFromDatabase\<close>: one \<^verbatim>\<open>push_back\<close> for each row.\<close>

primrec read_rows :: "int list \<Rightarrow> cint list \<Rightarrow> cint list" where
  "read_rows [] cs = cs"
| "read_rows (r # rows) cs = read_rows rows (cs @ [toInt r])"

text \<open>
  \<^verbatim>\<open>db.open()\<close> closes a connection that is open, which abandons its transaction, and
  opens it again; \<open>open_ok\<close> tells whether that succeeds, \<open>select_ok\<close> whether the
  SELECT does (a failed SELECT yields no rows). When the database cannot be opened the
  slot reports the error and leaves the counters alone. At the end the connection is
  closed.
\<close>

definition loadCountersFromDatabase ::
    "bool \<Rightarrow> bool \<Rightarrow> MainWindow \<Rightarrow> database \<Rightarrow> (error + MainWindow) \<times> database" where
  "loadCountersFromDatabase open_ok select_ok w db0 =
     (let db = db0\<lparr>working := None, isOpen := open_ok\<rparr> in
      if \<not> isOpen db then (Inl FailedToOpenDatabase, db)
      else
        (let rows = (if select_ok then durable db else []);
             cs = read_rows rows []
         in (Inr (w\<lparr>counterManager := setCounters cs (counterManager w)\<rparr>),
             db\<lparr>isOpen := False\<rparr>)))"

section \<open>Properties of the counter store\<close>

lemma increment_each_map: "increment_each cs = map (\<lambda>c. c + 1) cs"
  by (induction cs) simp_all

lemma incrementAll_funpow_counters:
  "counters ((incrementAll ^^ N) cm) = map (\<lambda>c. c + word_of_nat N) (counters cm)"
proof (induction N)
  case 0
  show ?case by simp
next
  case (Suc N)
  have "counters ((incrementAll ^^ Suc N) cm) = increment_each (counters ((incrementAll ^^ N) cm))"
    by (simp add: incrementAll_def)
  also have "\<dots> = map (\<lambda>c. c + 1) (map (\<lambda>c. c + word_of_nat N) (counters cm))"
    by (simp only: Suc.IH increment_each_map)
  also have "\<dots> = map (\<lambda>c. c + word_of_nat (Suc N)) (counters cm)"
    by (simp add: add.assoc add.commute)
  finally show ?case .
qed

lemma sint_add_no_overflow:
  fixes c :: cint
  assumes "sint c + int N \<le> INT_MAX"
  shows "sint (c + word_of_nat N) = sint c + int N"
proof -
  have lo: "- (2 ^ 31) \<le> sint c + int N"
    using sint_ge [of c] by simp
  have hi: "sint c + int N < 2 ^ 31"
    using assms by (simp add: INT_MAX_def)
  have "c + word_of_nat N = word_of_int (sint c + int N)"
    by simp
  then have "sint (c + word_of_nat N) = signed_take_bit 31 (sint c + int N)"
    by (simp only: sint_sbintrunc') simp
  also have "\<dots> = sint c + int N"
    using lo hi by (simp add: signed_take_bit_int_eq_self)
  finally show ?thesis .
qed

lemma erase_take_drop: "erase n xs = take n xs @ drop (Suc n) xs"
  by (induction n xs rule: erase.induct) simp_all

lemma size_as_int_small: "length xs < 2 ^ 31 \<Longrightarrow> size_as_int xs = int (length xs)"
proof -
  assume less: "length xs < 2 ^ 31"
  have "size_as_int xs = signed_take_bit 31 (int (length xs))"
    unfolding size_as_int_def by (simp add: signed_of_nat)
  also have "\<dots> = int (length xs)"
    using less by (simp add: signed_take_bit_int_eq_self)
  finally show ?thesis .
qed


subsection \<open>incrementAll, N times\<close>

text \<open>
  Claim C1, as amended. Calling \<^verbatim>\<open>incrementAll()\<close> N times never changes the length of
  the collection and adds N to every element in 32-bit arithmetic; every element's value
  increases by exactly N whenever no element would pass \<open>INT_MAX\<close>.
\<close>

theorem incrementAll_N_times:
  "length (counters ((incrementAll ^^ N) cm)) = length (counters cm) \<and>
   counters ((incrementAll ^^ N) cm) = map (\<lambda>c. c + word_of_nat N) (counters cm) \<and>
   ((\<forall>c \<in> set (counters cm). sint c + int N \<le> INT_MAX) \<longrightarrow>
      map sint (counters ((incrementAll ^^ N) cm)) = map (\<lambda>c. sint c + int N) (counters cm))"
proof (intro conjI impI)
  show "length (counters ((incrementAll ^^ N) cm)) = length (counters cm)"
    by (simp add: incrementAll_funpow_counters)
  show "counters ((incrementAll ^^ N) cm) = map (\<lambda>c. c + word_of_nat N) (counters cm)"
    by (rule incrementAll_funpow_counters)
next
  assume "\<forall>c \<in> set (counters cm). sint c + int N \<le> INT_MAX"
  then show "map sint (counters ((incrementAll ^^ N) cm)) = map (\<lambda>c. sint c + int N) (counters cm)"
    by (simp add: incrementAll_funpow_counters sint_add_no_overflow)
qed

theorem incrementAll_N_times_witness:
  "sint (5 :: cint) + int 7 \<le> INT_MAX \<and> sint (- 3 :: cint) + int 7 \<le> INT_MAX \<and>
   sint (2147483640 :: cint) + int 7 \<le> INT_MAX \<and>
   map sint (counters ((incrementAll ^^ 7) \<lparr>counters = [5, - 3, 2147483640]\<rparr>)) =
     [12, 4, 2147483647]"
  using incrementAll_N_times [of 7 "\<lparr>counters = [5, - 3, 2147483640]\<rparr>"]
  by (simp add: INT_MAX_def)

text \<open>
  The claim as the specification words it fails at a counter that holds \<open>INT_MAX\<close>: one
  more increment does not make it \<open>INT_MAX + 1\<close>.
\<close>

theorem incrementAll_overflow_counterexample:
  "sint (hd (counters (incrementAll \<lparr>counters = [2147483647]\<rparr>))) = INT_MIN \<and>
   sint (hd (counters (incrementAll \<lparr>counters = [2147483647]\<rparr>))) \<noteq> sint (2147483647 :: cint) + 1"
  by (simp add: incrementAll_def INT_MIN_def)

subsection \<open>deleteCounter\<close>

text \<open>
  Claim C2, as amended. With an index outside \<open>[0, length)\<close> \<^verbatim>\<open>deleteCounter\<close> leaves
  every collection unchanged. With \<open>0 \<le> index < length\<close>, on a collection of fewer than
  \<open>2 ^ 31\<close> elements, it deletes exactly the element at that position: the elements
  before it stay, the elements after it move one place to the left.
\<close>

theorem deleteCounter_spec:
  "(\<not> (0 \<le> sint index \<and> sint index < int (length (counters cm))) \<longrightarrow>
      deleteCounter index cm = cm) \<and>
   (length (counters cm) < 2 ^ 31 \<longrightarrow>
    0 \<le> sint index \<and> sint index < int (length (counters cm)) \<longrightarrow>
      counters (deleteCounter index cm) =
        take (nat (sint index)) (counters cm) @ drop (Suc (nat (sint index))) (counters cm))"
proof (intro conjI impI)
  assume out: "\<not> (0 \<le> sint index \<and> sint index < int (length (counters cm)))"
  have "\<not> (0 \<le> sint index \<and> sint index < size_as_int (counters cm))"
  proof (cases "0 \<le> sint index")
    case False
    then show ?thesis by simp
  next
    case True
    with out have ge: "int (length (counters cm)) \<le> sint index" by simp
    have "sint index < 2 ^ 31"
      using sint_lt [of index] by simp
    with ge have "int (length (counters cm)) < int (2 ^ 31)" by simp
    then have "length (counters cm) < 2 ^ 31" by (simp only: of_nat_less_iff)
    then have "size_as_int (counters cm) = int (length (counters cm))"
      by (rule size_as_int_small)
    with ge show ?thesis by simp
  qed
  then show "deleteCounter index cm = cm"
    unfolding deleteCounter_def by (simp only: if_False)
next
  assume small: "length (counters cm) < 2 ^ 31"
    and inside: "0 \<le> sint index \<and> sint index < int (length (counters cm))"
  from small have "size_as_int (counters cm) = int (length (counters cm))"
    by (rule size_as_int_small)
  with inside show "counters (deleteCounter index cm) =
      take (nat (sint index)) (counters cm) @ drop (Suc (nat (sint index))) (counters cm)"
    by (simp add: deleteCounter_def erase_take_drop)
qed

theorem deleteCounter_spec_witness:
  "\<not> (0 \<le> sint (3 :: cint) \<and> sint (3 :: cint) < int (length (counters \<lparr>counters = [5, 6, 7]\<rparr>))) \<and>
   deleteCounter 3 \<lparr>counters = [5, 6, 7]\<rparr> = \<lparr>counters = [5, 6, 7]\<rparr> \<and>
   length (counters \<lparr>counters = [5, 6, 7]\<rparr>) < 2 ^ 31 \<and>
   0 \<le> sint (1 :: cint) \<and> sint (1 :: cint) < int (length (counters \<lparr>counters = [5, 6, 7]\<rparr>)) \<and>
   counters (deleteCounter 1 \<lparr>counters = [5, 6, 7]\<rparr>) = [5, 7]"
  using deleteCounter_spec [of 3 "\<lparr>counters = [5, 6, 7]\<rparr>"]
    deleteCounter_spec [of 1 "\<lparr>counters = [5, 6, 7]\<rparr>"]
  by simp

text \<open>
  On a collection of \<open>2 ^ 31\<close> elements the size no longer fits \<^verbatim>\<open>int\<close>: the cast
  yields a negative number, the bounds check fails for the index 0, and nothing is
  deleted.
\<close>

theorem deleteCounter_huge_counterexample:
  "0 \<le> sint (0 :: cint) \<and>
   sint (0 :: cint) < int (length (counters \<lparr>counters = replicate 2147483648 0\<rparr>)) \<and>
   deleteCounter 0 \<lparr>counters = replicate 2147483648 0\<rparr> = \<lparr>counters = replicate 2147483648 0\<rparr>"
  by (simp add: deleteCounter_def size_as_int_def)

subsection \<open>setCounters and getCounters\<close>

text \<open>
  Claim C3. For every integer sequence X, \<^verbatim>\<open>setCounters(X)\<close> followed at once by
  \<^verbatim>\<open>getCounters()\<close> returns exactly X.
\<close>

theorem setCounters_getCounters:
  "getCounters (setCounters X cm) = X"
  by (simp add: getCounters_def setCounters_def)

subsection \<open>The length of the collection\<close>

text \<open>
  Claim C7, as amended. \<^verbatim>\<open>incrementAll\<close> keeps the length, \<^verbatim>\<open>getCounters\<close> returns a
  copy as long as the collection and changes nothing, \<^verbatim>\<open>addCounter\<close> makes it one
  longer, and \<^verbatim>\<open>setCounters(X)\<close> gives it the length of X.
\<close>

theorem length_by_operation:
  "length (counters (incrementAll cm)) = length (counters cm) \<and>
   length (getCounters cm) = length (counters cm) \<and>
   length (counters (addCounter v cm)) = Suc (length (counters cm)) \<and>
   length (counters (setCounters X cm)) = length X"
  by (simp add: incrementAll_def increment_each_map getCounters_def addCounter_def setCounters_def)

text \<open>Replacing a one-element collection by the empty one changes the length.\<close>

theorem setCounters_length_counterexample:
  "length (counters (setCounters [] \<lparr>counters = [0]\<rparr>)) \<noteq> length (counters \<lparr>counters = [0]\<rparr>)"
  by (simp add: setCounters_def)

section \<open>Properties of the frequency display\<close>

lemma accumulate_sum_list: "accumulate xs init = init + sum_list xs"
  by (induction xs arbitrary: init) (simp_all add: add.assoc)

lemma sum_list_word_of_int: "sum_list xs = (word_of_int (sum_list (map sint xs)) :: cint)"
  by (induction xs) simp_all

lemma sint_accumulate:
  "sint (accumulate xs 0) = signed_take_bit 31 (sum_list (map sint xs))"
proof -
  have "accumulate xs 0 = word_of_int (sum_list (map sint xs))"
    using sum_list_word_of_int [of xs] by (simp add: accumulate_sum_list)
  then show ?thesis
    by (simp only: sint_sbintrunc') simp
qed

lemma signed_take_bit_31_mod:
  "signed_take_bit 31 (k :: int) mod 2 ^ 32 = k mod 2 ^ 32"
proof -
  have "take_bit 32 (signed_take_bit 31 k) = take_bit 32 k"
    by (simp add: take_bit_signed_take_bit)
  then show ?thesis by (simp add: take_bit_eq_mod)
qed

lemma signed_take_bit_31_range:
  "INT_MIN \<le> signed_take_bit 31 (k :: int) \<and> signed_take_bit 31 k \<le> INT_MAX"
  using signed_take_bit_int_greater_eq_minus_exp [of 31 k] signed_take_bit_int_less_exp [of 31 k]
  by (simp add: INT_MIN_def INT_MAX_def)

subsection \<open>Rounding to a double\<close>

lemma pow2_powi: "pow2 e = 2 powi e"
  by (simp add: pow2_def power_int_def power_one_over inverse_eq_divide)

lemma pow2_pos: "0 < pow2 e"
  by (simp add: pow2_powi)

lemma pow2_diff: "pow2 (e - 52) = pow2 e / 2 ^ 52"
  by (simp add: pow2_powi power_int_diff)

lemma exponent_lower: "x \<noteq> 0 \<Longrightarrow> pow2 (exponent x) \<le> \<bar>x\<bar>"
proof (cases "1 \<le> \<bar>x\<bar>")
  case True
  define n where "n = \<lfloor>\<bar>x\<bar>\<rfloor>"
  have npos: "0 < n" using True by (simp add: n_def)
  have "real_of_int (2 ^ nat (bitlen n - 1)) \<le> real_of_int n"
    using bitlen_bounds [OF npos] by (simp only: of_int_le_iff)
  also have "\<dots> \<le> \<bar>x\<bar>" by (simp add: n_def)
  finally have "2 ^ nat (bitlen n - 1) \<le> \<bar>x\<bar>" by simp
  moreover have "0 \<le> bitlen n - 1"
    using npos bitlen_eq_zero_iff [of n] bitlen_nonneg [of n] by linarith
  ultimately show ?thesis
    using True by (simp add: exponent_def pow2_def n_def)
next
  case False
  assume nz: "x \<noteq> 0"
  define m where "m = \<lceil>1 / \<bar>x\<bar>\<rceil> - 1"
  have "1 < 1 / \<bar>x\<bar>" using False nz by simp
  then have "1 < \<lceil>1 / \<bar>x\<bar>\<rceil>" by linarith
  then have mpos: "0 < m" by (simp add: m_def)
  have "m < 2 ^ nat (bitlen m)"
    using bitlen_bounds [OF mpos] by simp
  then have "\<lceil>1 / \<bar>x\<bar>\<rceil> \<le> 2 ^ nat (bitlen m)" by (simp add: m_def)
  then have "real_of_int \<lceil>1 / \<bar>x\<bar>\<rceil> \<le> real_of_int (2 ^ nat (bitlen m))"
    by (simp only: of_int_le_iff)
  moreover have "1 / \<bar>x\<bar> \<le> real_of_int \<lceil>1 / \<bar>x\<bar>\<rceil>"
    by (rule le_of_int_ceiling)
  ultimately have "1 / \<bar>x\<bar> \<le> real_of_int (2 ^ nat (bitlen m))"
    by (rule order_trans [rotated])
  then have "1 / \<bar>x\<bar> \<le> 2 ^ nat (bitlen m)"
    by simp
  then have le: "1 / 2 ^ nat (bitlen m) \<le> \<bar>x\<bar>"
    using nz by (simp add: field_simps)
  have bpos: "0 < bitlen m"
    using mpos bitlen_eq_zero_iff [of m] bitlen_nonneg [of m] by linarith
  show ?thesis
    using False le bpos by (simp add: exponent_def pow2_def m_def)
qed

lemma round_half_even_error: "\<bar>real_of_int (round_half_even y) - y\<bar> \<le> 1 / 2"
  unfolding round_half_even_def Let_def by (auto simp: abs_le_iff)

lemma to_double_error: "\<bar>to_double x - x\<bar> \<le> \<bar>x\<bar> / 2 ^ 53"
proof (cases "x = 0")
  case True
  then show ?thesis by (simp add: to_double_def)
next
  case False
  define p where "p = pow2 (exponent x - 52)"
  have ppos: "0 < p" by (simp add: p_def pow2_pos)
  have p_le: "p \<le> \<bar>x\<bar> / 2 ^ 52"
    using exponent_lower [OF False] by (simp add: p_def pow2_diff divide_right_mono)
  define r where "r = real_of_int (round_half_even (x / p))"
  have td: "to_double x = r * p"
    using False by (simp add: to_double_def Let_def r_def p_def)
  have "r * p - x = (r - x / p) * p"
    using ppos by (simp add: field_simps)
  then have "\<bar>r * p - x\<bar> = \<bar>r - x / p\<bar> * p"
    using ppos by (simp add: abs_mult)
  also have "\<dots> \<le> (1 / 2) * p"
    using round_half_even_error [of "x / p"] ppos
    by (intro mult_right_mono) (simp_all add: r_def)
  also have "\<dots> \<le> (1 / 2) * (\<bar>x\<bar> / 2 ^ 52)"
    using p_le by simp
  also have "\<dots> = \<bar>x\<bar> / 2 ^ 53" by simp
  finally show ?thesis by (simp add: td)
qed

lemma to_double_pos: "0 < x \<Longrightarrow> 0 < to_double x"
proof -
  assume pos: "0 < x"
  have "\<bar>x\<bar> / 2 ^ 53 < x" using pos by simp
  with to_double_error [of x] show ?thesis by linarith
qed

lemma to_double_neg: "x < 0 \<Longrightarrow> to_double x < 0"
proof -
  assume neg: "x < 0"
  have "\<bar>x\<bar> / 2 ^ 53 < - x" using neg by simp
  with to_double_error [of x] show ?thesis by linarith
qed

lemma to_double_zero: "to_double 0 = 0"
  by (simp add: to_double_def)


lemma rel_error_trans:
  fixes a b c :: real
  assumes cb: "\<bar>c - b\<bar> \<le> e1 * \<bar>b\<bar>" and ba: "\<bar>b - a\<bar> \<le> e2 * \<bar>a\<bar>" and e1: "0 \<le> e1"
  shows "\<bar>c - a\<bar> \<le> (e1 + e2 + e1 * e2) * \<bar>a\<bar>"
proof -
  have "\<bar>b\<bar> \<le> \<bar>a\<bar> + \<bar>b - a\<bar>" by linarith
  also have "\<dots> \<le> \<bar>a\<bar> + e2 * \<bar>a\<bar>" using ba by simp
  finally have "e1 * \<bar>b\<bar> \<le> e1 * (\<bar>a\<bar> + e2 * \<bar>a\<bar>)"
    using e1 by (rule mult_left_mono)
  with cb have "\<bar>c - b\<bar> \<le> e1 * (\<bar>a\<bar> + e2 * \<bar>a\<bar>)" by linarith
  moreover have "\<bar>c - a\<bar> \<le> \<bar>c - b\<bar> + \<bar>b - a\<bar>" by linarith
  ultimately have "\<bar>c - a\<bar> \<le> e1 * (\<bar>a\<bar> + e2 * \<bar>a\<bar>) + e2 * \<bar>a\<bar>"
    using ba by linarith
  also have "\<dots> = (e1 + e2 + e1 * e2) * \<bar>a\<bar>" by (simp add: algebra_simps)
  finally show ?thesis .
qed

lemma rel_error_quotient:
  fixes a a' b b' :: real
  assumes a: "\<bar>a' - a\<bar> \<le> ea * \<bar>a\<bar>" and b: "\<bar>b' - b\<bar> \<le> eb * b"
    and bpos: "0 < b" and eb: "eb < 1"
  shows "\<bar>a' / b' - a / b\<bar> \<le> ((ea + eb) / (1 - eb)) * \<bar>a / b\<bar>"
proof -
  have b'_ge: "(1 - eb) * b \<le> b'"
    using b by (simp add: algebra_simps abs_le_iff)
  have low: "0 < (1 - eb) * b" using bpos eb by simp
  with b'_ge have b'pos: "0 < b'" by linarith
  have "a' / b' - a / b = ((a' - a) * b - a * (b' - b)) / (b * b')"
    using bpos b'pos by (simp add: field_simps)
  then have "\<bar>a' / b' - a / b\<bar> = \<bar>(a' - a) * b - a * (b' - b)\<bar> / (b * b')"
    using bpos b'pos by (simp add: abs_mult)
  also have "\<dots> \<le> ((ea + eb) * \<bar>a\<bar> * b) / (b * b')"
  proof (rule divide_right_mono)
    have "\<bar>(a' - a) * b - a * (b' - b)\<bar> \<le> \<bar>a' - a\<bar> * b + \<bar>a\<bar> * \<bar>b' - b\<bar>"
      using bpos by (metis abs_mult abs_of_pos abs_triangle_ineq4)
    also have "\<dots> \<le> (ea * \<bar>a\<bar>) * b + \<bar>a\<bar> * (eb * b)"
      using a b bpos by (intro add_mono mult_right_mono mult_left_mono) simp_all
    also have "\<dots> = (ea + eb) * \<bar>a\<bar> * b" by (simp add: algebra_simps)
    finally show "\<bar>(a' - a) * b - a * (b' - b)\<bar> \<le> (ea + eb) * \<bar>a\<bar> * b" .
    show "0 \<le> b * b'" using bpos b'pos by simp
  qed
  also have "\<dots> = (ea + eb) * \<bar>a\<bar> / b'"
    using bpos by simp
  also have "\<dots> \<le> (ea + eb) * \<bar>a\<bar> / ((1 - eb) * b)"
  proof (rule divide_left_mono)
    show "(1 - eb) * b \<le> b'" by (rule b'_ge)
    have "0 \<le> eb * b" using b by linarith
    then have eb0: "0 \<le> eb" using bpos by (simp add: zero_le_mult_iff)
    show "0 \<le> (ea + eb) * \<bar>a\<bar>"
    proof (cases "a = 0")
      case True
      then show ?thesis by simp
    next
      case False
      have "0 \<le> ea * \<bar>a\<bar>" using a by linarith
      then have "0 \<le> ea" using False by (simp add: zero_le_mult_iff)
      with eb0 show ?thesis by simp
    qed
    show "0 < b' * ((1 - eb) * b)" using b'pos low by simp
  qed
  also have "\<dots> = ((ea + eb) / (1 - eb)) * \<bar>a / b\<bar>"
    using bpos by (simp add: abs_divide)
  finally show ?thesis .
qed

lemma exponent_upper: "x \<noteq> 0 \<Longrightarrow> \<bar>x\<bar> < pow2 (exponent x + 1)"
proof (cases "1 \<le> \<bar>x\<bar>")
  case True
  define n where "n = \<lfloor>\<bar>x\<bar>\<rfloor>"
  have npos: "0 < n" using True by (simp add: n_def)
  have "n < 2 ^ nat (bitlen n)"
    using bitlen_bounds [OF npos] by simp
  then have "n + 1 \<le> 2 ^ nat (bitlen n)" by simp
  then have "real_of_int (n + 1) \<le> real_of_int (2 ^ nat (bitlen n))"
    by (simp only: of_int_le_iff)
  moreover have "\<bar>x\<bar> < real_of_int (n + 1)"
    unfolding n_def by linarith
  ultimately have "\<bar>x\<bar> < 2 ^ nat (bitlen n)" by simp
  then show ?thesis
    using True bitlen_nonneg [of n] by (simp add: exponent_def pow2_def n_def)
next
  case False
  assume nz: "x \<noteq> 0"
  define m where "m = \<lceil>1 / \<bar>x\<bar>\<rceil> - 1"
  have "1 < 1 / \<bar>x\<bar>" using False nz by simp
  then have "1 < \<lceil>1 / \<bar>x\<bar>\<rceil>" by linarith
  then have mpos: "0 < m" by (simp add: m_def)
  have bpos: "0 < bitlen m"
    using mpos bitlen_eq_zero_iff [of m] bitlen_nonneg [of m] by linarith
  have "real_of_int (2 ^ nat (bitlen m - 1)) \<le> real_of_int m"
    using bitlen_bounds [OF mpos] by (simp only: of_int_le_iff)
  moreover have "real_of_int m < 1 / \<bar>x\<bar>"
    unfolding m_def by linarith
  ultimately have "real_of_int (2 ^ nat (bitlen m - 1)) < 1 / \<bar>x\<bar>"
    by (rule le_less_trans)
  then have "2 ^ nat (bitlen m - 1) < 1 / \<bar>x\<bar>" by simp
  then have lt: "\<bar>x\<bar> < 1 / 2 ^ nat (bitlen m - 1)"
    using nz by (simp add: field_simps)
  have "pow2 (exponent x + 1) = 1 / 2 ^ nat (bitlen m - 1)"
  proof (cases "bitlen m = 1")
    case True
    then show ?thesis using False by (simp add: exponent_def pow2_def m_def)
  next
    case False
    with bpos have "1 < bitlen m" by simp
    then show ?thesis
      using \<open>\<not> 1 \<le> \<bar>x\<bar>\<close> by (simp add: exponent_def pow2_def m_def)
  qed
  with lt show ?thesis by simp
qed

text \<open>The number that is rounded to a whole number has a significand of 53 bits.\<close>

lemma pow2_succ: "pow2 (e + 1) = 2 * pow2 e"
  by (simp add: pow2_powi power_int_add)

lemma significand_range:
  assumes "x \<noteq> 0"
  shows "2 ^ 52 \<le> \<bar>x / pow2 (exponent x - 52)\<bar> \<and> \<bar>x / pow2 (exponent x - 52)\<bar> < 2 ^ 53"
proof -
  define p where "p = pow2 (exponent x)"
  have ppos: "0 < p" by (simp add: p_def pow2_pos)
  have lo: "p \<le> \<bar>x\<bar>"
    unfolding p_def using assms by (rule exponent_lower)
  have hi: "\<bar>x\<bar> < 2 * p"
    using exponent_upper [OF assms] by (simp add: p_def pow2_succ)
  have eq: "\<bar>x / pow2 (exponent x - 52)\<bar> = \<bar>x\<bar> / p * 2 ^ 52"
    using ppos by (simp add: pow2_diff p_def abs_divide)
  define q where "q = \<bar>x\<bar> / p"
  have "1 \<le> q" using lo ppos by (simp add: q_def)
  moreover have "q < 2" using hi ppos by (simp add: q_def field_simps)
  ultimately have "2 ^ 52 \<le> q * 2 ^ 52 \<and> q * 2 ^ 52 < 2 ^ 53" by simp
  then show ?thesis
    unfolding eq q_def .
qed

lemma to_double_nonpos: "x \<le> 0 \<Longrightarrow> to_double x \<le> 0"
  using to_double_neg [of x] to_double_zero by (cases "x = 0") simp_all

lemma to_double_rel: "\<bar>to_double x - x\<bar> \<le> (1 / 2 ^ 53) * \<bar>x\<bar>"
  using to_double_error [of x] by simp

lemma double_quotient_error:
  assumes el: "0 < el"
  shows "\<bar>double_div (double_sub s1 s0) (double_div (to_double el) 1000) - (s1 - s0) / (el / 1000)\<bar>
         \<le> \<bar>(s1 - s0) / (el / 1000)\<bar> / 2 ^ 50"
proof -
  define u :: real where "u = 1 / 2 ^ 53"
  define d where "d = el / 1000"
  define d1 where "d1 = to_double el"
  define d2 where "d2 = to_double (d1 / 1000)"
  define n where "n = s1 - s0"
  define n1 where "n1 = to_double n"
  define ed where "ed = u + u + u * u"
  define eq where "eq = (u + ed) / (1 - ed)"
  have dpos: "0 < d" using el by (simp add: d_def)
  have "\<bar>d1 - el\<bar> \<le> u * \<bar>el\<bar>"
    unfolding d1_def u_def by (rule to_double_rel)
  then have s1: "\<bar>d1 / 1000 - d\<bar> \<le> u * \<bar>d\<bar>"
    by (simp add: d_def abs_le_iff field_simps)
  have s2: "\<bar>d2 - d1 / 1000\<bar> \<le> u * \<bar>d1 / 1000\<bar>"
    unfolding d2_def u_def by (rule to_double_rel)
  have "\<bar>d2 - d\<bar> \<le> (u + u + u * u) * \<bar>d\<bar>"
    using s2 s1 by (rule rel_error_trans) (simp add: u_def)
  then have s3: "\<bar>d2 - d\<bar> \<le> ed * d"
    using dpos by (simp add: ed_def)
  have s4: "\<bar>n1 - n\<bar> \<le> u * \<bar>n\<bar>"
    unfolding n1_def u_def by (rule to_double_rel)
  have ed1: "ed < 1" by (simp add: ed_def u_def)
  have s5: "\<bar>n1 / d2 - n / d\<bar> \<le> eq * \<bar>n / d\<bar>"
    unfolding eq_def using s4 s3 dpos ed1 by (rule rel_error_quotient)
  have s6: "\<bar>to_double (n1 / d2) - n1 / d2\<bar> \<le> u * \<bar>n1 / d2\<bar>"
    unfolding u_def by (rule to_double_rel)
  have "\<bar>to_double (n1 / d2) - n / d\<bar> \<le> (u + eq + u * eq) * \<bar>n / d\<bar>"
    using s6 s5 by (rule rel_error_trans) (simp add: u_def)
  also have "\<dots> \<le> (1 / 2 ^ 50) * \<bar>n / d\<bar>"
  proof (rule mult_right_mono)
    show "u + eq + u * eq \<le> 1 / 2 ^ 50"
      by (simp add: eq_def ed_def u_def)
    show "0 \<le> \<bar>n / d\<bar>" by simp
  qed
  finally show ?thesis
    by (simp add: double_div_def double_sub_def n_def n1_def d_def d1_def d2_def)
qed

lemma timeDiff_pos:
  "started < now \<Longrightarrow> 0 < double_div (to_double (real_of_int (now - started))) 1000"
proof -
  assume "started < now"
  then have "0 < to_double (real_of_int (now - started))"
    by (intro to_double_pos) simp
  then have "0 < to_double (real_of_int (now - started)) / 1000" by simp
  then show ?thesis
    unfolding double_div_def by (rule to_double_pos)
qed

lemma timeDiff_nonpos:
  "now \<le> started \<Longrightarrow> double_div (to_double (real_of_int (now - started))) 1000 \<le> 0"
proof -
  assume "now \<le> started"
  then have "to_double (real_of_int (now - started)) \<le> 0"
    by (intro to_double_nonpos) simp
  then have "to_double (real_of_int (now - started)) / 1000 \<le> 0" by simp
  then show ?thesis
    unfolding double_div_def by (rule to_double_nonpos)
qed

subsection \<open>The first tick and the armed ticks\<close>

text \<open>
  Claim C4, as amended. While the timer is invalid, which is so at the very first tick,
  the tick starts the timer, records the current sum and hands no frequency to the
  label. On a later tick, with the sum \<open>S0\<close> recorded, the timer started at \<open>t0\<close> and
  the current sum \<open>S1\<close> at the clock reading \<open>t1 > t0\<close>, the frequency is the quotient
  of \<open>S1 - S0\<close> and the elapsed seconds \<open>(t1 - t0) / 1000\<close> as double arithmetic
  computes it, each operation rounded to the nearest double; it differs from the exact
  quotient by at most the \<open>2 ^ 50\<close>-th part of it, and it is negative whenever the sum
  has fallen. The recorded sum becomes \<open>S1\<close>, and the timer is restarted at the reading
  that \<^verbatim>\<open>restart()\<close> sees. After any tick the timer is valid, so only the first tick
  finds it invalid.
\<close>

theorem updateFrequency_rate:
  "(elapsedTimer w = None \<longrightarrow>
      updateFrequency now later w =
        (w\<lparr>elapsedTimer := Some now, previousSum := currentSum w\<rparr>, None)) \<and>
   (elapsedTimer w = Some started \<and> started < now \<longrightarrow>
      (\<exists>rate.
         updateFrequency now later w =
           (w\<lparr>previousSum := currentSum w, elapsedTimer := Some later\<rparr>, Some rate) \<and>
         rate = double_div (double_sub (currentSum w) (previousSum w))
                  (double_div (to_double (real_of_int (now - started))) 1000) \<and>
         \<bar>rate - (currentSum w - previousSum w) / (real_of_int (now - started) / 1000)\<bar>
           \<le> \<bar>(currentSum w - previousSum w) / (real_of_int (now - started) / 1000)\<bar> / 2 ^ 50 \<and>
         (currentSum w < previousSum w \<longrightarrow> rate < 0))) \<and>
   elapsedTimer (fst (updateFrequency now later w)) \<noteq> None"
proof (intro conjI impI)
  show "elapsedTimer (fst (updateFrequency now later w)) \<noteq> None"
    by (cases "elapsedTimer w") (simp_all add: updateFrequency_def Let_def)
next
  assume "elapsedTimer w = None"
  then show "updateFrequency now later w =
      (w\<lparr>elapsedTimer := Some now, previousSum := currentSum w\<rparr>, None)"
    by (simp add: updateFrequency_def)
next
  assume armed: "elapsedTimer w = Some started \<and> started < now"
  define timeDiff where "timeDiff = double_div (to_double (real_of_int (now - started))) 1000"
  define rate where "rate = double_div (double_sub (currentSum w) (previousSum w)) timeDiff"
  have pos: "0 < timeDiff"
    unfolding timeDiff_def using armed by (intro timeDiff_pos) simp
  have step: "updateFrequency now later w =
      (w\<lparr>previousSum := currentSum w, elapsedTimer := Some later\<rparr>, Some rate)"
    using armed pos by (simp add: updateFrequency_def Let_def rate_def timeDiff_def)
  have "0 < real_of_int (now - started)"
    using armed by simp
  then have close: "\<bar>rate - (currentSum w - previousSum w) / (real_of_int (now - started) / 1000)\<bar>
      \<le> \<bar>(currentSum w - previousSum w) / (real_of_int (now - started) / 1000)\<bar> / 2 ^ 50"
    unfolding rate_def timeDiff_def by (rule double_quotient_error)
  have falling: "currentSum w < previousSum w \<longrightarrow> rate < 0"
  proof
    assume "currentSum w < previousSum w"
    then have "double_sub (currentSum w) (previousSum w) < 0"
      unfolding double_sub_def by (intro to_double_neg) simp
    then have "double_sub (currentSum w) (previousSum w) / timeDiff < 0"
      using pos by (rule divide_neg_pos)
    then show "rate < 0"
      unfolding rate_def double_div_def by (rule to_double_neg)
  qed
  show "\<exists>rate.
      updateFrequency now later w =
        (w\<lparr>previousSum := currentSum w, elapsedTimer := Some later\<rparr>, Some rate) \<and>
      rate = double_div (double_sub (currentSum w) (previousSum w))
               (double_div (to_double (real_of_int (now - started))) 1000) \<and>
      \<bar>rate - (currentSum w - previousSum w) / (real_of_int (now - started) / 1000)\<bar>
        \<le> \<bar>(currentSum w - previousSum w) / (real_of_int (now - started) / 1000)\<bar> / 2 ^ 50 \<and>
      (currentSum w < previousSum w \<longrightarrow> rate < 0)"
    using step close falling by (intro exI [of _ rate]) (simp add: rate_def timeDiff_def)
qed

theorem updateFrequency_rate_witness:
  "elapsedTimer \<lparr>counterManager = \<lparr>counters = [3, 4]\<rparr>, elapsedTimer = None, previousSum = 0\<rparr> = None \<and>
   updateFrequency 1000 1000 \<lparr>counterManager = \<lparr>counters = [3, 4]\<rparr>, elapsedTimer = None, previousSum = 0\<rparr> =
     (\<lparr>counterManager = \<lparr>counters = [3, 4]\<rparr>, elapsedTimer = Some 1000, previousSum = 7\<rparr>, None) \<and>
   elapsedTimer \<lparr>counterManager = \<lparr>counters = [3, 4]\<rparr>, elapsedTimer = Some 1000, previousSum = 10\<rparr>
     = Some 1000 \<and>
   (1000 :: int) < 3000 \<and>
   currentSum \<lparr>counterManager = \<lparr>counters = [3, 4]\<rparr>, elapsedTimer = Some 1000, previousSum = 10\<rparr>
     < previousSum \<lparr>counterManager = \<lparr>counters = [3, 4]\<rparr>, elapsedTimer = Some 1000, previousSum = 10\<rparr> \<and>
   updateFrequency 3000 3002 \<lparr>counterManager = \<lparr>counters = [3, 4]\<rparr>, elapsedTimer = Some 1000, previousSum = 10\<rparr> =
     (\<lparr>counterManager = \<lparr>counters = [3, 4]\<rparr>, elapsedTimer = Some 3002, previousSum = 7\<rparr>, Some (- 3 / 2))"
  using updateFrequency_rate
      [where w = "\<lparr>counterManager = \<lparr>counters = [3, 4]\<rparr>, elapsedTimer = None, previousSum = 0\<rparr>"
         and now = 1000 and later = 1000 and started = 0]
    updateFrequency_rate
      [where w = "\<lparr>counterManager = \<lparr>counters = [3, 4]\<rparr>, elapsedTimer = Some 1000, previousSum = 10\<rparr>"
         and now = 3000 and later = 3002 and started = 1000]
  by (simp add: updateFrequency_def currentSum_def getCounters_def double_div_def double_sub_def
      to_double_def exponent_def compute_bitlen pow2_def round_half_even_def)

text \<open>
  The claim as the specification words it fails in two places. With the counters 4 and
  5, no sum recorded and 9 milliseconds elapsed, the exact quotient is 1000; the doubles
  give the next double above it. And the timer is restarted at the reading of
  \<^verbatim>\<open>restart()\<close>, which is not \<open>t1\<close> once the clock has moved on.
\<close>

theorem updateFrequency_rounding_counterexample:
  "snd (updateFrequency 9 9 \<lparr>counterManager = \<lparr>counters = [4, 5]\<rparr>, elapsedTimer = Some 0, previousSum = 0\<rparr>) = Some (1000 + 1 / 2 ^ 43) \<and>
   (1000 + 1 / 2 ^ 43 :: real) \<noteq> (9 - 0) / (real_of_int (9 - 0) / 1000) \<and>
   elapsedTimer (fst (updateFrequency 9 10 \<lparr>counterManager = \<lparr>counters = [4, 5]\<rparr>, elapsedTimer = Some 0, previousSum = 0\<rparr>)) = Some 10"
  by (simp add: updateFrequency_def currentSum_def getCounters_def double_div_def double_sub_def
      to_double_def exponent_def compute_bitlen pow2_def round_half_even_def)

subsection \<open>A tick with no time elapsed\<close>

text \<open>
  Claim C8. On an armed tick that finds a non-positive elapsed time the slot returns at
  once: no frequency is handed to the label, the recorded sum and the timer stay as they
  were, and there is no error to pass on.
\<close>

theorem updateFrequency_skips:
  "elapsedTimer w = Some started \<Longrightarrow> now \<le> started \<Longrightarrow> updateFrequency now later w = (w, None)"
  using timeDiff_nonpos [of now started] by (simp add: updateFrequency_def Let_def)

theorem updateFrequency_skips_witness:
  "elapsedTimer \<lparr>counterManager = \<lparr>counters = [3, 4]\<rparr>, elapsedTimer = Some 1000, previousSum = 10\<rparr>
     = Some 1000 \<and>
   (1000 :: int) \<le> 1000 \<and>
   updateFrequency 1000 1000 \<lparr>counterManager = \<lparr>counters = [3, 4]\<rparr>, elapsedTimer = Some 1000, previousSum = 10\<rparr> =
     (\<lparr>counterManager = \<lparr>counters = [3, 4]\<rparr>, elapsedTimer = Some 1000, previousSum = 10\<rparr>, None)"
  using updateFrequency_skips
      [of "\<lparr>counterManager = \<lparr>counters = [3, 4]\<rparr>, elapsedTimer = Some 1000, previousSum = 10\<rparr>"
          1000 1000 1000]
  by simp

subsection \<open>The sampled sum\<close>

text \<open>
  Claim C10. The sum that a tick samples is added up in \<^verbatim>\<open>int\<close> and only then turned
  into a double. It lies in the range of \<^verbatim>\<open>int\<close> and agrees with the true sum of the
  counters modulo \<open>2 ^ 32\<close>; whenever the true sum is outside the range of \<^verbatim>\<open>int\<close>,
  the sampled sum is not the true sum.
\<close>

theorem currentSum_wraps:
  "currentSum w = real_of_int (sint (accumulate (getCounters (counterManager w)) 0)) \<and>
   sint (accumulate (getCounters (counterManager w)) 0) mod 2 ^ 32 =
     sum_list (map sint (getCounters (counterManager w))) mod 2 ^ 32 \<and>
   INT_MIN \<le> sint (accumulate (getCounters (counterManager w)) 0) \<and>
   sint (accumulate (getCounters (counterManager w)) 0) \<le> INT_MAX \<and>
   (sum_list (map sint (getCounters (counterManager w))) < INT_MIN \<or>
    INT_MAX < sum_list (map sint (getCounters (counterManager w))) \<longrightarrow>
      currentSum w \<noteq> real_of_int (sum_list (map sint (getCounters (counterManager w)))))"
proof -
  define cs where "cs = getCounters (counterManager w)"
  define S where "S = sint (accumulate cs 0)"
  define T where "T = sum_list (map sint cs)"
  have S: "S = signed_take_bit 31 T"
    by (simp add: S_def T_def sint_accumulate)
  have sampled: "currentSum w = real_of_int S"
    by (simp add: currentSum_def S_def cs_def)
  have congruent: "S mod 2 ^ 32 = T mod 2 ^ 32"
    by (simp only: S signed_take_bit_31_mod)
  have range: "INT_MIN \<le> S \<and> S \<le> INT_MAX"
    by (simp only: S signed_take_bit_31_range)
  have "T < INT_MIN \<or> INT_MAX < T \<longrightarrow> currentSum w \<noteq> real_of_int T"
    using range by (auto simp: sampled)
  with sampled congruent range show ?thesis
    unfolding S_def T_def cs_def by simp
qed

theorem currentSum_wraps_witness:
  "INT_MAX < sum_list (map sint (getCounters (counterManager
      \<lparr>counterManager = \<lparr>counters = [2147483647, 1]\<rparr>, elapsedTimer = None, previousSum = 0\<rparr>))) \<and>
   currentSum \<lparr>counterManager = \<lparr>counters = [2147483647, 1]\<rparr>, elapsedTimer = None, previousSum = 0\<rparr>
     = - 2147483648 \<and>
   currentSum \<lparr>counterManager = \<lparr>counters = [2147483647, 1]\<rparr>, elapsedTimer = None, previousSum = 0\<rparr>
     \<noteq> 2147483648"
  using currentSum_wraps
      [of "\<lparr>counterManager = \<lparr>counters = [2147483647, 1]\<rparr>, elapsedTimer = None, previousSum = 0\<rparr>"]
  by (simp add: getCounters_def INT_MAX_def)

section \<open>Properties of saving and loading\<close>

lemma insert_loop_in_transaction:
  "working db = Some rows \<Longrightarrow> \<forall>k. ok k \<Longrightarrow>
   insert_loop ok k cs db = db\<lparr>working := Some (rows @ map sint cs)\<rparr>"
proof (induction cs arbitrary: db rows k)
  case Nil
  then show ?case by simp
next
  case (Cons c cs)
  have step: "exec (ok k) (InsertValue (sint c)) db = db\<lparr>working := Some (rows @ [sint c])\<rparr>"
    using Cons.prems by (simp add: write_rows_def)
  have "insert_loop ok (Suc k) cs (db\<lparr>working := Some (rows @ [sint c])\<rparr>)
      = db\<lparr>working := Some (rows @ [sint c]), working := Some ((rows @ [sint c]) @ map sint cs)\<rparr>"
    by (rule Cons.IH) (simp_all add: Cons.prems)
  with step show ?case by simp
qed

lemma read_rows_map: "read_rows rows cs = cs @ map toInt rows"
  by (induction rows arbitrary: cs) simp_all

lemma toInt_sint: "map toInt (map sint cs) = cs"
  by (induction cs) (simp_all add: toInt_def)

lemma onSaveClicked_all_ok:
  assumes "isOpen db \<or> open_ok" and "\<forall>k. ok k"
  shows "\<exists>db'. onSaveClicked open_ok ok w db = Inr db' \<and>
           durable db' = map sint (getCounters (counterManager w))"
proof -
  define db0 where "db0 = database_connection open_ok db"
  have open0: "isOpen db0"
    using assms(1) by (auto simp: db0_def database_connection_def)
  define db1 where "db1 = exec (ok 0) BeginTransaction db0"
  obtain rows where w1: "working db1 = Some rows"
    using assms(2) by (cases "working db0") (simp_all add: db1_def)
  define db2 where "db2 = exec (ok 1) DeleteFromCounters db1"
  have w2: "working db2 = Some []"
    using assms(2) w1 by (simp add: db2_def write_rows_def)
  define cs where "cs = getCounters (counterManager w)"
  have db3: "insert_loop ok 2 cs db2 = db2\<lparr>working := Some ([] @ map sint cs)\<rparr>"
    using w2 assms(2) by (rule insert_loop_in_transaction)
  have "onSaveClicked open_ok ok w db =
      Inr (exec (ok (2 + length cs)) Commit (insert_loop ok 2 cs db2))"
    using open0 by (simp add: onSaveClicked_def Let_def db0_def db1_def db2_def cs_def)
  moreover have "durable (exec (ok (2 + length cs)) Commit (insert_loop ok 2 cs db2)) = map sint cs"
    using assms(2) by (simp add: db3)
  ultimately show ?thesis by (simp add: cs_def)
qed

lemma loadCountersFromDatabase_ok:
  "loadCountersFromDatabase True True w db =
     (Inr (w\<lparr>counterManager := setCounters (map toInt (durable db)) (counterManager w)\<rparr>),
      db\<lparr>working := None, isOpen := False\<rparr>)"
  by (simp add: loadCountersFromDatabase_def read_rows_map)

subsection \<open>Saving, then loading\<close>

text \<open>
  Claim C6. Let the counters be any sequence X, the empty one included. When the
  connection is open or can be opened and every statement of the save succeeds, and the
  load that follows can open the database and read the table, then the save stores and
  the load installs exactly X.
\<close>

theorem save_then_load:
  assumes "isOpen db \<or> open_ok" and "\<forall>k. ok k" and "reopen_ok" and "select_ok"
  shows "\<exists>db'. onSaveClicked open_ok ok w db = Inr db' \<and>
           (\<exists>w'' db''. loadCountersFromDatabase reopen_ok select_ok w' db' = (Inr w'', db'') \<and>
              getCounters (counterManager w'') = getCounters (counterManager w))"
proof -
  obtain db' where saved: "onSaveClicked open_ok ok w db = Inr db'"
    and rows: "durable db' = map sint (getCounters (counterManager w))"
    using onSaveClicked_all_ok [OF assms(1,2)] by blast
  have "getCounters (setCounters (map toInt (durable db')) (counterManager w')) =
      getCounters (counterManager w)"
    unfolding rows toInt_sint by (simp add: getCounters_def setCounters_def)
  then show ?thesis
    using saved assms(3,4) by (simp add: loadCountersFromDatabase_ok)
qed

theorem save_then_load_witness:
  "(isOpen \<lparr>durable = [1, 2], working = None, isOpen = False\<rparr> \<or> True) \<and>
   (\<exists>db'. onSaveClicked True (\<lambda>k. True)
        \<lparr>counterManager = \<lparr>counters = [5, - 1, 7]\<rparr>, elapsedTimer = None, previousSum = 0\<rparr>
        \<lparr>durable = [1, 2], working = None, isOpen = False\<rparr> = Inr db' \<and>
      (\<exists>w'' db''. loadCountersFromDatabase True True
           \<lparr>counterManager = \<lparr>counters = []\<rparr>, elapsedTimer = None, previousSum = 0\<rparr> db' = (Inr w'', db'') \<and>
         getCounters (counterManager w'') = [5, - 1, 7]))"
  using save_then_load
      [of "\<lparr>durable = [1, 2], working = None, isOpen = False\<rparr>" True "\<lambda>k. True" True True
          "\<lparr>counterManager = \<lparr>counters = [5, - 1, 7]\<rparr>, elapsedTimer = None, previousSum = 0\<rparr>"
          "\<lparr>counterManager = \<lparr>counters = []\<rparr>, elapsedTimer = None, previousSum = 0\<rparr>"]
  by (simp add: getCounters_def)

subsection \<open>A save in which one statement fails\<close>

text \<open>
  Claim C5 asks that a save which fails partway leaves the stored values as they were.
  The program opens a transaction, but it never looks at the result of a statement and
  commits in every case. Here the file holds 1, 2 and the counters are 7, 8, 9; the
  INSERT of 8 fails and every other statement succeeds. The file ends with 7, 9: neither
  what it held nor what was to be saved.
\<close>

theorem onSaveClicked_partial_failure:
  "onSaveClicked True (\<lambda>k. k \<noteq> 3)
     \<lparr>counterManager = \<lparr>counters = [7, 8, 9]\<rparr>, elapsedTimer = None, previousSum = 0\<rparr>
     \<lparr>durable = [1, 2], working = None, isOpen = True\<rparr>
   = Inr \<lparr>durable = [7, 9], working = None, isOpen = True\<rparr>"
  by (simp add: onSaveClicked_def database_connection_def getCounters_def write_rows_def)

end
